theory Spec2Isabelle
  imports Main "HOL-Library.Sublist"
begin

section \<open>Go standard library string functions used by the backend\<close>

text \<open>
  A Go string is a sequence of bytes; \<open>string\<close> (a list of 8-bit characters) models it.
  The functions below model the calls of package \<open>strings\<close> that
  \<open>processTranscriptEvent\<close> and \<open>saveToS3\<close> make.
\<close>

text \<open>\<open>strings.Index(s, substr)\<close>: the byte offset of the first occurrence of
  \<open>substr\<close> in \<open>s\<close>; \<open>None\<close> stands for Go's \<open>-1\<close>.\<close>

fun Index :: "string \<Rightarrow> string \<Rightarrow> nat option" where
  "Index [] substr = (if substr = [] then Some 0 else None)"
| "Index (c # cs) substr =
     (if prefix substr (c # cs) then Some 0 else map_option Suc (Index cs substr))"

text \<open>\<open>strings.Contains(s, substr)\<close> is \<open>Index(s, substr) >= 0\<close>.\<close>

definition Contains :: "string \<Rightarrow> string \<Rightarrow> bool" where
  "Contains s substr = (Index s substr \<noteq> None)"

text \<open>\<open>strings.Replace(s, old, new, 1)\<close>: the first occurrence of \<open>old\<close> replaced
  by \<open>new\<close>; \<open>s\<close> itself when \<open>old\<close> does not occur.\<close>

definition Replace1 :: "string \<Rightarrow> string \<Rightarrow> string \<Rightarrow> string" where
  "Replace1 s old new =
     (case Index s old of
        None \<Rightarrow> s
      | Some i \<Rightarrow> take i s @ new @ drop (i + length old) s)"

text \<open>The UTF-8 encodings of the code points for which \<open>unicode.IsSpace\<close> holds:
  U+0009..U+000D, U+0020, U+0085, U+00A0, U+1680, U+2000..U+200A, U+2028, U+2029,
  U+202F, U+205F and U+3000.\<close>

definition spaceEncodings :: "string list" where
  "spaceEncodings =
     [[CHR 0x09], [CHR 0x0A], [CHR 0x0B], [CHR 0x0C], [CHR 0x0D], [CHR 0x20],
      [CHR 0xC2, CHR 0x85], [CHR 0xC2, CHR 0xA0],
      [CHR 0xE1, CHR 0x9A, CHR 0x80],
      [CHR 0xE2, CHR 0x80, CHR 0x80], [CHR 0xE2, CHR 0x80, CHR 0x81],
      [CHR 0xE2, CHR 0x80, CHR 0x82], [CHR 0xE2, CHR 0x80, CHR 0x83],
      [CHR 0xE2, CHR 0x80, CHR 0x84], [CHR 0xE2, CHR 0x80, CHR 0x85],
      [CHR 0xE2, CHR 0x80, CHR 0x86], [CHR 0xE2, CHR 0x80, CHR 0x87],
      [CHR 0xE2, CHR 0x80, CHR 0x88], [CHR 0xE2, CHR 0x80, CHR 0x89],
      [CHR 0xE2, CHR 0x80, CHR 0x8A],
      [CHR 0xE2, CHR 0x80, CHR 0xA8], [CHR 0xE2, CHR 0x80, CHR 0xA9],
      [CHR 0xE2, CHR 0x80, CHR 0xAF],
      [CHR 0xE2, CHR 0x81, CHR 0x9F],
      [CHR 0xE3, CHR 0x80, CHR 0x80]]"

text \<open>The number of bytes of the white-space rune a string starts with, respectively
  ends with; 0 when it starts (ends) with no such rune.\<close>

definition leadingSpace :: "string \<Rightarrow> nat" where
  "leadingSpace s =
     (case find (\<lambda>e. prefix e s) spaceEncodings of None \<Rightarrow> 0 | Some e \<Rightarrow> length e)"

definition trailingSpace :: "string \<Rightarrow> nat" where
  "trailingSpace s =
     (case find (\<lambda>e. suffix e s) spaceEncodings of None \<Rightarrow> 0 | Some e \<Rightarrow> length e)"

lemma spaceEncodings_nonempty: "e \<in> set spaceEncodings \<Longrightarrow> e \<noteq> []"
  by (auto simp: spaceEncodings_def)

lemma leadingSpace_le: "leadingSpace s \<le> length s"
  by (auto simp: leadingSpace_def prefix_length_le split: option.splits dest!: find_Some_iff[THEN iffD1])

lemma trailingSpace_le: "trailingSpace s \<le> length s"
  by (auto simp: trailingSpace_def suffix_length_le split: option.splits dest!: find_Some_iff[THEN iffD1])

text \<open>\<open>strings.TrimLeftFunc(s, unicode.IsSpace)\<close> and
  \<open>strings.TrimRightFunc(s, unicode.IsSpace)\<close>: white-space runes are removed one at
  a time from the front, respectively from the back.\<close>

function TrimLeftSpace :: "string \<Rightarrow> string" where
  "TrimLeftSpace s =
     (if leadingSpace s = 0 then s else TrimLeftSpace (drop (leadingSpace s) s))"
  by pat_completeness auto
termination
proof (relation "measure length")
  show "wf (measure length)" by simp
next
  fix s :: string
  assume "leadingSpace s \<noteq> 0"
  moreover have "leadingSpace s \<le> length s" by (rule leadingSpace_le)
  ultimately show "(drop (leadingSpace s) s, s) \<in> measure length" by simp
qed

function TrimRightSpace :: "string \<Rightarrow> string" where
  "TrimRightSpace s =
     (if trailingSpace s = 0 then s
      else TrimRightSpace (take (length s - trailingSpace s) s))"
  by pat_completeness auto
termination
proof (relation "measure length")
  show "wf (measure length)" by simp
next
  fix s :: string
  assume "trailingSpace s \<noteq> 0"
  moreover have "trailingSpace s \<le> length s" by (rule trailingSpace_le)
  ultimately show "(take (length s - trailingSpace s) s, s) \<in> measure length" by simp
qed

declare TrimLeftSpace.simps [simp del]
declare TrimRightSpace.simps [simp del]

text \<open>\<open>strings.TrimSpace(s)\<close>: leading and trailing white space removed.\<close>

definition TrimSpace :: "string \<Rightarrow> string" where
  "TrimSpace s = TrimRightSpace (TrimLeftSpace s)"

text \<open>\<open>strings.Join(elems, sep)\<close>.\<close>

fun Join :: "string list \<Rightarrow> string \<Rightarrow> string" where
  "Join [] sep = []"
| "Join [a] sep = a"
| "Join (a # b # rest) sep = a @ sep @ Join (b # rest) sep"


section \<open>The session and its messages (src/backend/main.go)\<close>

text \<open>\<open>WSMessage\<close>: the JSON message exchanged with the client.\<close>

record WSMessage =
  Type :: string
  Text :: string
  Key :: string
  Action :: string

text \<open>The fields of \<open>Config\<close> that the archiver reads.\<close>

record Config =
  S3Bucket :: string
  S3Prefix :: string

text \<open>A byte slice: an audio frame, the body of a stored object.\<close>

type_synonym bytes = string

text \<open>The argument of one \<open>s3Client.PutObject\<close> call.\<close>

record PutObjectInput =
  Bucket :: string
  ObjectKey :: string
  Body :: bytes
  ContentType :: string

text \<open>
  \<open>TranscriptionSession\<close>. The fields \<open>config\<close>, \<open>transcripts\<close> and
  \<open>lastTranscript\<close> are the struct's own. The handles of the struct are modelled by
  what was done through them, oldest first:
  \<^item> \<open>cancelled\<close>: whether \<open>s.cancel()\<close> was called, that is whether \<open>s.ctx.Done()\<close>
    is closed;
  \<^item> \<open>sent\<close>: the messages handed to \<open>s.conn.WriteJSON\<close>;
  \<^item> \<open>stored\<close>: the \<open>PutObject\<close> calls made on \<open>s.s3Client\<close>, each with whether
    it succeeded;
  \<^item> \<open>streamed\<close>: the payloads of the \<open>Send\<close> calls made on the recognition
    stream that \<open>handleConnection\<close> opened.
\<close>

record TranscriptionSession =
  config :: Config
  transcripts :: "string list"
  lastTranscript :: string
  cancelled :: bool
  sent :: "WSMessage list"
  stored :: "(PutObjectInput \<times> bool) list"
  streamed :: "bytes list"

text \<open>The session \<open>wsHandler\<close> creates (lines 164 to 173): no segment, empty last
  transcript, a context that is not cancelled.\<close>

definition newSession :: "Config \<Rightarrow> TranscriptionSession" where
  "newSession cfg =
     \<lparr>config = cfg, transcripts = [], lastTranscript = [], cancelled = False,
      sent = [], stored = [], streamed = []\<rparr>"

text \<open>\<open>sendMessage\<close> writes one message to the connection (a failed write is only
  logged); \<open>sendError\<close> sends an \<open>error\<close> message.\<close>

definition sendMessage :: "TranscriptionSession \<Rightarrow> WSMessage \<Rightarrow> TranscriptionSession" where
  "sendMessage s msg = s\<lparr>sent := sent s @ [msg]\<rparr>"

definition sendError :: "TranscriptionSession \<Rightarrow> string \<Rightarrow> TranscriptionSession" where
  "sendError s errorMsg =
     sendMessage s \<lparr>Type = ''error'', Text = errorMsg, Key = [], Action = []\<rparr>"

section \<open>The transcript reconciler: \<open>processTranscriptEvent\<close>\<close>

text \<open>The types of the recognition service's transcript event that the code reads:
  a transcript holds results, a result holds ranked alternatives and the partial flag,
  an alternative holds an optional text (a nil pointer is \<open>None\<close>).\<close>

record MedicalAlternative =
  Transcript :: "string option"

record MedicalResult =
  Alternatives :: "MedicalAlternative list"
  IsPartial :: bool

record MedicalTranscript =
  Results :: "MedicalResult list"

text \<open>\<open>aws.ToString\<close>: the empty string for a nil pointer.\<close>

definition ToString :: "string option \<Rightarrow> string" where
  "ToString p = (case p of None \<Rightarrow> [] | Some v \<Rightarrow> v)"

text \<open>The loop of lines 312 to 318,
  \<open>for i := len(s.transcripts) - 1; i >= 0 && i >= len(s.transcripts)-3; i--\<close>:
  it returns the segment it logs and breaks on, \<open>None\<close> when it runs to its end.\<close>

function scanRecent :: "string \<Rightarrow> string list \<Rightarrow> int \<Rightarrow> string option" where
  "scanRecent text ts i =
     (if i \<ge> 0 \<and> i \<ge> int (length ts) - 3
      then (if Contains text (ts ! nat i) then Some (ts ! nat i)
            else scanRecent text ts (i - 1))
      else None)"
  by pat_completeness auto
termination
  by (relation "measure (\<lambda>(text, ts, i). nat (i + 1))") auto

declare scanRecent.simps [simp del]

text \<open>The critical section of lines 288 to 320 for a final text: the result is the
  pair of \<open>isDuplicate\<close> and the text, which the extension branch replaces by the new
  part.\<close>

definition checkDuplicate :: "TranscriptionSession \<Rightarrow> string \<Rightarrow> bool \<times> string" where
  "checkDuplicate s text =
     (if lastTranscript s \<noteq> [] then
        (if text = lastTranscript s then (True, text)
         else if Contains text (lastTranscript s) then
           (let newPart = TrimSpace (Replace1 text (lastTranscript s) [])
            in if newPart \<noteq> [] then (False, newPart) else (True, text))
         else if length (transcripts s) > 0 then
           (scanRecent text (transcripts s) (int (length (transcripts s)) - 1) \<noteq> None, text)
         else (False, text))
      else (False, text))"

text \<open>Lines 322 to 335: a text that is no duplicate is appended, becomes the last
  transcript and is sent to the client as a \<open>final\<close> message.\<close>

definition processFinal :: "TranscriptionSession \<Rightarrow> string \<Rightarrow> TranscriptionSession" where
  "processFinal s text =
     (case checkDuplicate s text of
        (isDuplicate, text') \<Rightarrow>
          if \<not> isDuplicate then
            sendMessage (s\<lparr>transcripts := transcripts s @ [text'], lastTranscript := text'\<rparr>)
              \<lparr>Type = ''final'', Text = text', Key = [], Action = []\<rparr>
          else s)"

text \<open>The body of the loop over \<open>event.Results\<close>, for one result.\<close>

definition processResult :: "TranscriptionSession \<Rightarrow> MedicalResult \<Rightarrow> TranscriptionSession" where
  "processResult s result =
     (if length (Alternatives result) > 0 then
        (let alternative = hd (Alternatives result);
             text = ToString (Transcript alternative)
         in if text = [] then s
            else if \<not> IsPartial result then processFinal s text
            else sendMessage s \<lparr>Type = ''partial'', Text = text, Key = [], Action = []\<rparr>)
      else s)"

definition processTranscriptEvent ::
    "TranscriptionSession \<Rightarrow> MedicalTranscript \<Rightarrow> TranscriptionSession" where
  "processTranscriptEvent s event = foldl processResult s (Results event)"

text \<open>A final result and a partial result whose top alternative is a given text.\<close>

definition finalResult :: "string \<Rightarrow> MedicalResult" where
  "finalResult text = \<lparr>Alternatives = [\<lparr>Transcript = Some text\<rparr>], IsPartial = False\<rparr>"

definition partialResult :: "string \<Rightarrow> MedicalResult" where
  "partialResult text = \<lparr>Alternatives = [\<lparr>Transcript = Some text\<rparr>], IsPartial = True\<rparr>"

text \<open>\<open>handleTranscriptionEvents\<close>: the events the goroutine takes from the stream
  before it returns (on cancellation or on the end of the stream), in order. Only a
  transcript event with a transcript is processed.\<close>

datatype StreamEvent = TranscriptEvent "MedicalTranscript option" | OtherEvent

fun handleEvent :: "TranscriptionSession \<Rightarrow> StreamEvent \<Rightarrow> TranscriptionSession" where
  "handleEvent s (TranscriptEvent (Some transcript)) = processTranscriptEvent s transcript"
| "handleEvent s (TranscriptEvent None) = s"
| "handleEvent s OtherEvent = s"

definition handleTranscriptionEvents ::
    "TranscriptionSession \<Rightarrow> StreamEvent list \<Rightarrow> TranscriptionSession" where
  "handleTranscriptionEvents s events = foldl handleEvent s events"

section \<open>The audio path\<close>

text \<open>\<open>audioChan := make(chan []byte, 100)\<close>: the channel is the list of the frames
  it buffers, oldest first.\<close>

definition audioChanCap :: nat where
  "audioChanCap = 100"

text \<open>The \<open>select\<close> of lines 228 to 234 for a binary message. The send case is ready
  when the buffer has room, the \<open>s.ctx.Done()\<close> case when the context is
  cancelled; when both are ready Go takes either (\<open>pickSend\<close> says which), when none
  is, the \<open>default\<close> case drops the frame. The result is the channel afterwards.\<close>

definition pushAudio :: "TranscriptionSession \<Rightarrow> bytes list \<Rightarrow> bytes \<Rightarrow> bool \<Rightarrow> bytes list" where
  "pushAudio s audioChan message pickSend =
     (let sendReady = length audioChan < audioChanCap;
          doneReady = cancelled s
      in if sendReady \<and> doneReady then (if pickSend then audioChan @ [message] else audioChan)
         else if sendReady then audioChan @ [message]
         else if doneReady then audioChan
         else audioChan)"

text \<open>One iteration of the loop of lines 210 to 236 on what \<open>ReadMessage\<close>
  returned: an error, a text message (with the result of \<open>json.Unmarshal\<close>,
  \<open>None\<close> when it fails), a binary message, or a message of another type. The result
  is the channel afterwards and whether the loop is left.\<close>

datatype WSRead =
    ReadError
  | TextMessage "WSMessage option"
  | BinaryMessage bytes
  | OtherMessage

definition readMessage ::
    "TranscriptionSession \<Rightarrow> bytes list \<Rightarrow> WSRead \<Rightarrow> bool \<Rightarrow> bytes list \<times> bool" where
  "readMessage s audioChan read pickSend =
     (case read of
        ReadError \<Rightarrow> (audioChan, True)
      | TextMessage parsed \<Rightarrow>
          (case parsed of
             Some msg \<Rightarrow> (audioChan, Type msg = ''control'' \<and> Action msg = ''stop'')
           | None \<Rightarrow> (audioChan, False))
      | BinaryMessage message \<Rightarrow> (pushAudio s audioChan message pickSend, False)
      | OtherMessage \<Rightarrow> (audioChan, False))"

text \<open>\<open>sendAudioToTranscribe\<close>. The argument lists the case that the \<open>select\<close> of
  lines 352 to 379 takes in each iteration of the loop: a frame received from the
  channel together with whether \<open>Send\<close> fails on it, the channel found closed,
  \<open>done\<close> closed, or the context cancelled. When the list ends the goroutine is
  waiting in the \<open>select\<close>.\<close>

datatype SelectCase =
    AudioReceived bytes bool
  | AudioClosed
  | DoneClosed
  | CtxDone

fun sendAudioToTranscribe ::
    "TranscriptionSession \<Rightarrow> SelectCase list \<Rightarrow> TranscriptionSession" where
  "sendAudioToTranscribe s [] = s"
| "sendAudioToTranscribe s (AudioClosed # rest) = s\<lparr>streamed := streamed s @ [[]]\<rparr>"
| "sendAudioToTranscribe s (AudioReceived audio sendFails # rest) =
     (if sendFails then s\<lparr>streamed := streamed s @ [audio]\<rparr>
      else sendAudioToTranscribe (s\<lparr>streamed := streamed s @ [audio]\<rparr>) rest)"
| "sendAudioToTranscribe s (DoneClosed # rest) = s"
| "sendAudioToTranscribe s (CtxDone # rest) = s"

section \<open>The archiver: \<open>saveToS3\<close>\<close>

text \<open>\<open>timestamp\<close> is the formatted \<open>time.Now()\<close>, \<open>putFails\<close> whether
  \<open>PutObject\<close> returns an error.\<close>

definition saveToS3 :: "TranscriptionSession \<Rightarrow> string \<Rightarrow> bool \<Rightarrow> TranscriptionSession" where
  "saveToS3 s timestamp putFails =
     (let fullText = Join (transcripts s) '' ''
      in if fullText = [] then s
         else
           (let key = S3Prefix (config s) @ ''/transcription_'' @ timestamp @ ''.txt'';
                input = \<lparr>Bucket = S3Bucket (config s), ObjectKey = key, Body = fullText,
                         ContentType = ''text/plain''\<rparr>;
                s' = s\<lparr>stored := stored s @ [(input, \<not> putFails)]\<rparr>
            in if putFails then sendError s' ''Failed to save transcription''
               else sendMessage s' \<lparr>Type = ''saved'', Text = [], Key = key, Action = []\<rparr>))"

section \<open>The session: \<open>handleConnection\<close>\<close>

text \<open>
  \<open>handleConnection\<close> as far as the session's state and its three outputs go.
  \<open>startFails\<close> is whether \<open>StartMedicalStreamTranscription\<close> returns an error,
  \<open>events\<close> what \<open>handleTranscriptionEvents\<close> takes from the stream and
  \<open>selects\<close> what the \<open>select\<close> of \<open>sendAudioToTranscribe\<close> takes. The two
  goroutines write different fields, and the main goroutine writes to the client only
  before it starts them and after \<open>done\<close> is closed, so each output is in the
  order of the run.
\<close>

definition handleConnection ::
    "TranscriptionSession \<Rightarrow> bool \<Rightarrow> StreamEvent list \<Rightarrow> SelectCase list \<Rightarrow> string \<Rightarrow> bool
       \<Rightarrow> TranscriptionSession" where
  "handleConnection s startFails events selects timestamp putFails =
     (if startFails then sendError s ''Failed to start transcription''
      else
        (let s1 = handleTranscriptionEvents s events;
             s2 = sendAudioToTranscribe s1 selects;
             s3 = s2\<lparr>cancelled := True\<rparr>
         in if length (transcripts s3) > 0 then saveToS3 s3 timestamp putFails else s3))"

section \<open>Invariant and example sessions\<close>

text \<open>The relation between the last transcript and the segment list.\<close>

definition lastAcceptedInv :: "TranscriptionSession \<Rightarrow> bool" where
  "lastAcceptedInv s =
     ((lastTranscript s = [] \<longleftrightarrow> transcripts s = []) \<and>
      (transcripts s \<noteq> [] \<longrightarrow> lastTranscript s = last (transcripts s)))"

text \<open>A configuration, and the session that has received the given final texts, in
  order, since \<open>wsHandler\<close> created it.\<close>

definition exampleConfig :: Config where
  "exampleConfig = \<lparr>S3Bucket = ''transcripts'', S3Prefix = ''medical-transcriptions''\<rparr>"

definition sessionAfter :: "string list \<Rightarrow> TranscriptionSession" where
  "sessionAfter texts = foldl processResult (newSession exampleConfig) (map finalResult texts)"

text \<open>The messages of one type among those sent to the client.\<close>

definition messagesOfType :: "string \<Rightarrow> TranscriptionSession \<Rightarrow> WSMessage list" where
  "messagesOfType ty s = filter (\<lambda>m. Type m = ty) (sent s)"

text \<open>What the event goroutine leaves alone: the context, the store, the stream, and
  the client messages of type saved and error.\<close>

definition sameOutside :: "TranscriptionSession \<Rightarrow> TranscriptionSession \<Rightarrow> bool" where
  "sameOutside s s' =
     (config s' = config s \<and> cancelled s' = cancelled s \<and> stored s' = stored s \<and>
      streamed s' = streamed s \<and>
      messagesOfType ''saved'' s' = messagesOfType ''saved'' s \<and>
      messagesOfType ''error'' s' = messagesOfType ''error'' s)"

text \<open>The payloads of the \<open>Send\<close> calls that one run of the loop of
  \<open>sendAudioToTranscribe\<close> makes, in order.\<close>

definition audioSends :: "TranscriptionSession \<Rightarrow> SelectCase list \<Rightarrow> bytes list" where
  "audioSends s sel = drop (length (streamed s)) (streamed (sendAudioToTranscribe s sel))"

text \<open>The key and the request of \<open>saveToS3\<close>.\<close>

definition objectKey :: "TranscriptionSession \<Rightarrow> string \<Rightarrow> string" where
  "objectKey s timestamp = S3Prefix (config s) @ ''/transcription_'' @ timestamp @ ''.txt''"

definition putRequest :: "TranscriptionSession \<Rightarrow> string \<Rightarrow> PutObjectInput" where
  "putRequest s timestamp =
     \<lparr>Bucket = S3Bucket (config s), ObjectKey = objectKey s timestamp,
      Body = Join (transcripts s) '' '', ContentType = ''text/plain''\<rparr>"

section \<open>Facts about the string functions\<close>

lemma Contains_sublist: "Contains s sub \<longleftrightarrow> sublist sub s"
  by (induction s) (auto simp: Contains_def sublist_Cons_right)

lemma Contains_Nil_left: "Contains [] sub \<longleftrightarrow> sub = []"
  by (simp add: Contains_def)

lemma Contains_empty: "Contains s []"
  by (simp add: Contains_sublist)

lemma Index_Some:
  "Index s sub = Some i \<Longrightarrow>
     s = take i s @ sub @ drop (i + length sub) s \<and> (\<forall>j < i. \<not> prefix sub (drop j s))"
proof (induction s arbitrary: i)
  case Nil
  then show ?case by (simp split: if_splits)
next
  case (Cons c cs)
  show ?case
  proof (cases "prefix sub (c # cs)")
    case True
    with Cons.prems have "i = 0" by simp
    with True show ?thesis by (auto simp: prefix_def)
  next
    case False
    with Cons.prems obtain k where k: "Index cs sub = Some k" "i = Suc k" by auto
    from Cons.IH [OF k(1)] have ih: "cs = take k cs @ sub @ drop (k + length sub) cs"
      "\<forall>j < k. \<not> prefix sub (drop j cs)" by simp_all
    have "\<not> prefix sub (drop j (c # cs))" if "j < i" for j
    proof (cases j)
      case 0
      with False show ?thesis by simp
    next
      case (Suc m)
      with that k(2) ih(2) show ?thesis by simp
    qed
    moreover have "c # cs = take i (c # cs) @ sub @ drop (i + length sub) (c # cs)"
      using ih(1) k(2) by simp
    ultimately show ?thesis by blast
  qed
qed

lemma Replace1_first_occurrence:
  assumes "Contains s old"
  shows "\<exists>pre post. s = pre @ old @ post \<and> Replace1 s old new = pre @ new @ post
           \<and> (\<forall>j < length pre. \<not> prefix old (drop j s))"
proof -
  from assms obtain i where i: "Index s old = Some i"
    by (auto simp: Contains_def)
  from Index_Some [OF i] have eq: "s = take i s @ old @ drop (i + length old) s"
    and first: "\<forall>j < i. \<not> prefix old (drop j s)" by simp_all
  have "i \<le> length s"
  proof (rule ccontr)
    assume "\<not> i \<le> length s"
    then have "take i s = s" by simp
    with eq have "old @ drop (i + length old) s = []" by (metis append_self_conv)
    then have "old = []" by simp
    with i have "i = 0" by (cases s) simp_all
    with \<open>\<not> i \<le> length s\<close> show False by simp
  qed
  then have "length (take i s) = i" by simp
  with eq first i show ?thesis
    by (intro exI [of _ "take i s"] exI [of _ "drop (i + length old) s"])
       (simp add: Replace1_def)
qed

text \<open>White space of one, two and three bytes is trimmed on both sides; white space
  inside stays.\<close>

lemma TrimSpace_example:
  "TrimSpace ([CHR 0x09, CHR 0xC2, CHR 0xA0] @ ''in left  arm'' @ [CHR 0xE3, CHR 0x80, CHR 0x80,
      CHR 0x0A]) = ''in left  arm''"
  by code_simp

lemma scanRecent_find_aux:
  assumes "- 1 \<le> i" "i < int (length ts)"
  shows "scanRecent t ts i =
           find (Contains t) (rev (drop (length ts - 3) (take (nat (i + 1)) ts)))"
  using assms
proof (induction t ts i rule: scanRecent.induct)
  case (1 t ts i)
  show ?case
  proof (cases "i \<ge> 0 \<and> i \<ge> int (length ts) - 3")
    case True
    then have le: "length ts - 3 \<le> nat i" by linarith
    have "take (nat (i + 1)) ts = take (nat i) ts @ [ts ! nat i]"
    proof -
      have "nat i < length ts" using True "1.prems" by linarith
      moreover have "nat (i + 1) = Suc (nat i)" using True by linarith
      ultimately show ?thesis by (simp add: take_Suc_conv_app_nth)
    qed
    then have split: "drop (length ts - 3) (take (nat (i + 1)) ts) =
        drop (length ts - 3) (take (nat i) ts) @ [ts ! nat i]"
      using le "1.prems" True by simp
    show ?thesis
    proof (cases "Contains t (ts ! nat i)")
      case True
      with \<open>i \<ge> 0 \<and> i \<ge> int (length ts) - 3\<close> split show ?thesis
        by (subst scanRecent.simps) simp
    next
      case False
      have "scanRecent t ts (i - 1) =
           find (Contains t) (rev (drop (length ts - 3) (take (nat (i - 1 + 1)) ts)))"
        using "1.IH"[OF True False] "1.prems" True by simp
      with False True split show ?thesis
        by (subst scanRecent.simps) simp
    qed
  next
    case False
    then have "nat (i + 1) \<le> length ts - 3" using "1.prems" by linarith
    then have "drop (length ts - 3) (take (nat (i + 1)) ts) = []" by simp
    moreover from False have "scanRecent t ts i = None"
      by (subst scanRecent.simps) auto
    ultimately show ?thesis by simp
  qed
qed

lemma scanRecent_find:
  "scanRecent t ts (int (length ts) - 1) = find (Contains t) (take 3 (rev ts))"
proof -
  have "scanRecent t ts (int (length ts) - 1) =
      find (Contains t) (rev (drop (length ts - 3) (take (nat (int (length ts) - 1 + 1)) ts)))"
    by (rule scanRecent_find_aux) simp_all
  also have "rev (drop (length ts - 3) (take (nat (int (length ts) - 1 + 1)) ts)) = take 3 (rev ts)"
    by (simp add: take_rev)
  finally show ?thesis .
qed


section \<open>The reconciler\<close>

lemma processResult_final:
  "t \<noteq> [] \<Longrightarrow> processResult s (finalResult t) = processFinal s t"
  by (simp add: processResult_def finalResult_def ToString_def)

lemma accept_eq:
  "sendMessage (s\<lparr>transcripts := transcripts s @ [t], lastTranscript := t\<rparr>) m =
   s\<lparr>transcripts := transcripts s @ [t], lastTranscript := t, sent := sent s @ [m]\<rparr>"
  by (simp add: sendMessage_def)

text \<open>
  C1. When the last transcript is non-empty and a final text \<open>T\<close> differs from it but
  contains it, let \<open>R\<close> be \<open>T\<close> with the first occurrence of the last transcript
  removed and the surrounding white space trimmed. If \<open>R\<close> is non-empty, exactly \<open>R\<close>
  is appended to the segments, the last transcript becomes \<open>R\<close> and \<open>R\<close> is sent as
  a \<open>final\<close> message; if \<open>R\<close> is empty the session is unchanged.
\<close>

theorem extension_accepts_remainder:
  assumes "lastTranscript s \<noteq> []"
    and "T \<noteq> lastTranscript s"
    and "Contains T (lastTranscript s)"
  shows "processResult s (finalResult T) =
     (if TrimSpace (Replace1 T (lastTranscript s) []) \<noteq> []
      then s\<lparr>transcripts := transcripts s @ [TrimSpace (Replace1 T (lastTranscript s) [])],
              lastTranscript := TrimSpace (Replace1 T (lastTranscript s) []),
              sent := sent s @ [\<lparr>Type = ''final'',
                  Text = TrimSpace (Replace1 T (lastTranscript s) []), Key = [], Action = []\<rparr>]\<rparr>
      else s)"
proof -
  from assms(1,3) have "T \<noteq> []"
    by (auto simp: Contains_Nil_left)
  then have "processResult s (finalResult T) = processFinal s T"
    by (rule processResult_final)
  also have "\<dots> = (if TrimSpace (Replace1 T (lastTranscript s) []) \<noteq> []
      then s\<lparr>transcripts := transcripts s @ [TrimSpace (Replace1 T (lastTranscript s) [])],
              lastTranscript := TrimSpace (Replace1 T (lastTranscript s) []),
              sent := sent s @ [\<lparr>Type = ''final'',
                  Text = TrimSpace (Replace1 T (lastTranscript s) []), Key = [], Action = []\<rparr>]\<rparr>
      else s)"
    using assms by (simp add: processFinal_def checkDuplicate_def Let_def accept_eq)
  finally show ?thesis .
qed

text \<open>The hypotheses of C1 hold for the session that accepted
  \<open>patient reports pain\<close> and the final text \<open>patient reports pain in left arm\<close>: only
  \<open>in left arm\<close> is accepted.\<close>

theorem extension_accepts_remainder_witness:
  "transcripts (processResult (sessionAfter [''patient reports pain''])
      (finalResult ''patient reports pain in left arm'')) =
     [''patient reports pain'', ''in left arm'']
   \<and> lastTranscript (processResult (sessionAfter [''patient reports pain''])
      (finalResult ''patient reports pain in left arm'')) = ''in left arm''
   \<and> sent (processResult (sessionAfter [''patient reports pain''])
      (finalResult ''patient reports pain in left arm'')) =
     [\<lparr>Type = ''final'', Text = ''patient reports pain'', Key = [], Action = []\<rparr>,
      \<lparr>Type = ''final'', Text = ''in left arm'', Key = [], Action = []\<rparr>]"
proof -
  let ?s = "sessionAfter [''patient reports pain'']"
  let ?T = "''patient reports pain in left arm''"
  have l: "lastTranscript ?s = ''patient reports pain''" by code_simp
  have t: "transcripts ?s = [''patient reports pain'']" by code_simp
  have m: "sent ?s = [\<lparr>Type = ''final'', Text = ''patient reports pain'', Key = [], Action = []\<rparr>]"
    by code_simp
  have h1: "lastTranscript ?s \<noteq> []" by (simp add: l)
  have h2: "?T \<noteq> lastTranscript ?s" by (simp add: l)
  have h3: "Contains ?T (lastTranscript ?s)" unfolding l by code_simp
  have r: "TrimSpace (Replace1 ?T (lastTranscript ?s) []) = ''in left arm''"
    unfolding l by code_simp
  show ?thesis
    using extension_accepts_remainder [OF h1 h2 h3] unfolding r by (simp add: t m)
qed


lemma processFinal_no_overlap:
  assumes "T \<noteq> lastTranscript s"
    and "\<not> Contains T (lastTranscript s)"
  shows "processFinal s T =
           (if \<exists>seg \<in> set (take 3 (rev (transcripts s))). Contains T seg
            then s
            else s\<lparr>transcripts := transcripts s @ [T], lastTranscript := T,
                    sent := sent s @ [\<lparr>Type = ''final'', Text = T, Key = [], Action = []\<rparr>]\<rparr>)"
proof -
  from assms(2) have ne: "lastTranscript s \<noteq> []"
    by (auto simp: Contains_empty)
  show ?thesis
  proof (cases "transcripts s = []")
    case True
    with assms ne show ?thesis
      by (simp add: processFinal_def checkDuplicate_def sendMessage_def)
  next
    case False
    with assms ne show ?thesis
      by (auto simp: processFinal_def checkDuplicate_def sendMessage_def scanRecent_find
          find_None_iff find_Some_iff)
  qed
qed

text \<open>
  C2. For a non-empty final text \<open>T\<close> that differs from the last transcript and does
  not contain it, the loop looks at the last three segments, the most recent first, and
  stops at the first one that \<open>T\<close> contains; \<open>T\<close> is discarded (the session is
  unchanged) if and only if \<open>T\<close> contains one of these three, and is accepted as it
  is otherwise. Older segments play no part in the result.
\<close>

theorem older_segment_scan:
  assumes "T \<noteq> []"
    and "T \<noteq> lastTranscript s"
    and "\<not> Contains T (lastTranscript s)"
  shows "scanRecent T (transcripts s) (int (length (transcripts s)) - 1) =
           find (Contains T) (take 3 (rev (transcripts s)))
       \<and> processResult s (finalResult T) =
           (if \<exists>seg \<in> set (take 3 (rev (transcripts s))). Contains T seg
            then s
            else s\<lparr>transcripts := transcripts s @ [T], lastTranscript := T,
                    sent := sent s @ [\<lparr>Type = ''final'', Text = T, Key = [], Action = []\<rparr>]\<rparr>)"
  using assms by (simp add: scanRecent_find processResult_final processFinal_no_overlap)

text \<open>The hypotheses of C2 hold for the history \<open>A\<close>, \<open>B\<close>, \<open>C\<close> and the final text
  \<open>contains B inside it\<close>, which is discarded.\<close>

theorem older_segment_scan_witness:
  "scanRecent ''contains B inside it'' (transcripts (sessionAfter [''A'', ''B'', ''C''])) 2
     = Some ''B''
   \<and> processResult (sessionAfter [''A'', ''B'', ''C'']) (finalResult ''contains B inside it'')
     = sessionAfter [''A'', ''B'', ''C'']"
proof -
  let ?s = "sessionAfter [''A'', ''B'', ''C'']"
  let ?T = "''contains B inside it''"
  have l: "lastTranscript ?s = ''C''" by code_simp
  have t: "transcripts ?s = [''A'', ''B'', ''C'']" by code_simp
  have h1: "?T \<noteq> []" by simp
  have h2: "?T \<noteq> lastTranscript ?s" by (simp add: l)
  have h3: "\<not> Contains ?T (lastTranscript ?s)" unfolding l by code_simp
  have f: "find (Contains ?T) (take 3 (rev (transcripts ?s))) = Some ''B''"
    unfolding t by code_simp
  have b: "\<exists>seg \<in> set (take 3 (rev (transcripts ?s))). Contains ?T seg"
    using f by (simp only: find_Some_iff) (metis nth_mem)
  show ?thesis
    using older_segment_scan [OF h1 h2 h3] f b by (simp add: t)
qed

text \<open>
  C3 as stated fails: after \<open>pain\<close> was accepted, the final text \<open>pain and pain\<close>
  is an extension whose new part \<open>and pain\<close> becomes the last transcript; the same
  final text submitted again contains \<open>and pain\<close>, and its remainder \<open>pain\<close> is
  accepted, so the second submission is not discarded.
\<close>

theorem repeated_final_counterexample:
  "transcripts (processResult (processResult (newSession exampleConfig) (finalResult ''pain''))
       (finalResult ''pain and pain'')) = [''pain'', ''and pain'']
   \<and> lastTranscript (processResult (processResult (newSession exampleConfig) (finalResult ''pain''))
       (finalResult ''pain and pain'')) = ''and pain''
   \<and> transcripts (processResult (processResult (processResult (newSession exampleConfig) (finalResult ''pain''))
       (finalResult ''pain and pain'')) (finalResult ''pain and pain''))
       = [''pain'', ''and pain'', ''pain'']
   \<and> lastTranscript (processResult (processResult (processResult (newSession exampleConfig)
       (finalResult ''pain'')) (finalResult ''pain and pain'')) (finalResult ''pain and pain''))
       = ''pain''"
  by code_simp

text \<open>
  C3, amended. When the first submission of a non-empty final text \<open>T\<close> is accepted as
  it is (the last transcript is empty, or \<open>T\<close> neither equals nor contains the last
  transcript and contains none of the last three segments), the second submission of
  \<open>T\<close> equals the last transcript and is discarded: the two calls together append
  exactly the one segment \<open>T\<close>, and the second call leaves the session unchanged.
\<close>

theorem repeated_final_discarded:
  assumes "T \<noteq> []"
    and "lastTranscript s = [] \<or>
         (T \<noteq> lastTranscript s \<and> \<not> Contains T (lastTranscript s) \<and>
          (\<forall>seg \<in> set (take 3 (rev (transcripts s))). \<not> Contains T seg))"
  shows "processResult s (finalResult T) =
           s\<lparr>transcripts := transcripts s @ [T], lastTranscript := T,
             sent := sent s @ [\<lparr>Type = ''final'', Text = T, Key = [], Action = []\<rparr>]\<rparr>
       \<and> processResult (processResult s (finalResult T)) (finalResult T) =
           processResult s (finalResult T)"
proof -
  let ?s1 = "s\<lparr>transcripts := transcripts s @ [T], lastTranscript := T,
             sent := sent s @ [\<lparr>Type = ''final'', Text = T, Key = [], Action = []\<rparr>]\<rparr>"
  have first: "processResult s (finalResult T) = ?s1"
  proof (cases "lastTranscript s = []")
    case True
    then have "processFinal s T = ?s1"
      by (simp add: processFinal_def checkDuplicate_def sendMessage_def)
    then show ?thesis using assms(1) by (simp add: processResult_final)
  next
    case False
    with assms(2) have h: "T \<noteq> lastTranscript s" "\<not> Contains T (lastTranscript s)"
      "\<not> (\<exists>seg \<in> set (take 3 (rev (transcripts s))). Contains T seg)"
      by auto
    show ?thesis
      using processFinal_no_overlap [OF h(1) h(2)] h(3) assms(1)
      by (simp add: processResult_final)
  qed
  have "processFinal ?s1 T = ?s1"
    using assms(1) by (simp add: processFinal_def checkDuplicate_def)
  then have "processResult ?s1 (finalResult T) = ?s1"
    using assms(1) by (simp add: processResult_final)
  with first show ?thesis by simp
qed

text \<open>The hypotheses of the amended C3 hold for the new session and the final text
  \<open>hello there\<close>.\<close>

theorem repeated_final_discarded_witness:
  "transcripts (processResult (processResult (newSession exampleConfig)
       (finalResult ''hello there'')) (finalResult ''hello there'')) = [''hello there'']
   \<and> processResult (processResult (newSession exampleConfig)
       (finalResult ''hello there'')) (finalResult ''hello there'') =
     processResult (newSession exampleConfig) (finalResult ''hello there'')"
proof -
  have h1: "''hello there'' \<noteq> []" by simp
  have h2: "lastTranscript (newSession exampleConfig) = [] \<or>
         (''hello there'' \<noteq> lastTranscript (newSession exampleConfig) \<and>
          \<not> Contains ''hello there'' (lastTranscript (newSession exampleConfig)) \<and>
          (\<forall>seg \<in> set (take 3 (rev (transcripts (newSession exampleConfig)))).
              \<not> Contains ''hello there'' seg))"
    by (simp add: newSession_def)
  note both = repeated_final_discarded [OF h1 h2]
  have "transcripts (processResult (newSession exampleConfig) (finalResult ''hello there''))
      = [''hello there'']"
    unfolding both [THEN conjunct1] by (simp add: newSession_def)
  with both [THEN conjunct2] show ?thesis by simp
qed

text \<open>
  C8. A final result whose text is empty (or missing) is skipped: for every session,
  nothing is appended, the last transcript is unchanged and nothing is sent.
\<close>

theorem empty_final_noop:
  "processResult s (finalResult []) = s
   \<and> processResult s \<lparr>Alternatives = [\<lparr>Transcript = None\<rparr>], IsPartial = False\<rparr> = s
   \<and> processTranscriptEvent s \<lparr>Results = [finalResult []]\<rparr> = s"
  by (simp add: processResult_def finalResult_def ToString_def processTranscriptEvent_def)


lemma checkDuplicate_nonempty:
  "t \<noteq> [] \<Longrightarrow> checkDuplicate s t = (False, t') \<Longrightarrow> t' \<noteq> []"
  by (auto simp: checkDuplicate_def Let_def split: if_splits)

lemma processFinal_cases:
  assumes "t \<noteq> []"
  shows "processFinal s t = s \<or>
     (\<exists>seg. seg \<noteq> [] \<and> processFinal s t =
        s\<lparr>transcripts := transcripts s @ [seg], lastTranscript := seg,
          sent := sent s @ [\<lparr>Type = ''final'', Text = seg, Key = [], Action = []\<rparr>]\<rparr>)"
proof (cases "checkDuplicate s t")
  case (Pair isDuplicate t')
  show ?thesis
  proof (cases isDuplicate)
    case True
    with Pair show ?thesis by (simp add: processFinal_def)
  next
    case False
    with Pair assms have "t' \<noteq> []" by (auto dest: checkDuplicate_nonempty)
    with Pair False show ?thesis by (auto simp: processFinal_def sendMessage_def)
  qed
qed

lemma processResult_cases:
  "processResult s r = s
   \<or> (\<exists>t. processResult s r =
         s\<lparr>sent := sent s @ [\<lparr>Type = ''partial'', Text = t, Key = [], Action = []\<rparr>]\<rparr>)
   \<or> (\<exists>seg. seg \<noteq> [] \<and> processResult s r =
        s\<lparr>transcripts := transcripts s @ [seg], lastTranscript := seg,
          sent := sent s @ [\<lparr>Type = ''final'', Text = seg, Key = [], Action = []\<rparr>]\<rparr>)"
proof (cases "length (Alternatives r) > 0 \<and> ToString (Transcript (hd (Alternatives r))) \<noteq> []")
  case False
  then have "processResult s r = s" by (auto simp: processResult_def Let_def)
  then show ?thesis by simp
next
  case True
  show ?thesis
  proof (cases "IsPartial r")
    case True
    with \<open>length (Alternatives r) > 0 \<and> ToString (Transcript (hd (Alternatives r))) \<noteq> []\<close>
    show ?thesis by (auto simp: processResult_def Let_def sendMessage_def)
  next
    case False
    with True have "processResult s r =
        processFinal s (ToString (Transcript (hd (Alternatives r))))"
      by (simp add: processResult_def Let_def)
    with processFinal_cases [of "ToString (Transcript (hd (Alternatives r)))" s] True
    show ?thesis by auto
  qed
qed


lemma processResult_transcripts:
  "transcripts (processResult s r) = transcripts s
   \<or> (\<exists>seg. transcripts (processResult s r) = transcripts s @ [seg])"
  using processResult_cases [of s r] by auto

lemma processResult_prefix: "prefix (transcripts s) (transcripts (processResult s r))"
  using processResult_transcripts [of s r] by auto

lemma foldl_processResult_prefix:
  "prefix (transcripts s) (transcripts (foldl processResult s rs))"
proof (induction rs arbitrary: s)
  case Nil
  show ?case by simp
next
  case (Cons r rs)
  have "prefix (transcripts s) (transcripts (processResult s r))"
    by (rule processResult_prefix)
  also have "prefix \<dots> (transcripts (foldl processResult (processResult s r) rs))"
    by (rule Cons.IH)
  finally show ?case by simp
qed

lemma handleEvent_prefix: "prefix (transcripts s) (transcripts (handleEvent s e))"
  by (cases "(s, e)" rule: handleEvent.cases)
     (simp_all add: processTranscriptEvent_def foldl_processResult_prefix)

lemma handleTranscriptionEvents_prefix:
  "prefix (transcripts s) (transcripts (handleTranscriptionEvents s es))"
  unfolding handleTranscriptionEvents_def
proof (induction es arbitrary: s)
  case Nil
  show ?case by simp
next
  case (Cons e es)
  have "prefix (transcripts s) (transcripts (handleEvent s e))"
    by (rule handleEvent_prefix)
  also have "prefix \<dots> (transcripts (foldl handleEvent (handleEvent s e) es))"
    by (rule Cons.IH)
  finally show ?case by simp
qed

lemma saveToS3_transcripts:
  "transcripts (saveToS3 s ts pf) = transcripts s
   \<and> lastTranscript (saveToS3 s ts pf) = lastTranscript s"
  by (simp add: saveToS3_def Let_def sendError_def sendMessage_def)

lemma sameOutside_sendAudio:
  "config (sendAudioToTranscribe s sel) = config s
   \<and> transcripts (sendAudioToTranscribe s sel) = transcripts s
   \<and> cancelled (sendAudioToTranscribe s sel) = cancelled s
   \<and> stored (sendAudioToTranscribe s sel) = stored s
   \<and> sent (sendAudioToTranscribe s sel) = sent s"
  by (induction s sel rule: sendAudioToTranscribe.induct) simp_all

lemma handleConnection_prefix:
  "prefix (transcripts s) (transcripts (handleConnection s startFails es sel ts pf))"
proof (cases startFails)
  case True
  then show ?thesis
    by (simp add: handleConnection_def sendError_def sendMessage_def)
next
  case False
  have "transcripts (handleConnection s False es sel ts pf) =
      transcripts (handleTranscriptionEvents s es)"
    by (simp add: handleConnection_def Let_def saveToS3_transcripts sameOutside_sendAudio)
  with False show ?thesis by (simp add: handleTranscriptionEvents_prefix)
qed

text \<open>
  C9. The segment list only grows at its end: one result leaves it unchanged or appends
  exactly one segment, an event and a whole stream of events extend it (the old list
  is a prefix of the new one), \<open>saveToS3\<close> leaves it unchanged, and so a whole
  session only extends it.
\<close>

theorem segments_append_only:
  "(transcripts (processResult s r) = transcripts s
      \<or> (\<exists>seg. transcripts (processResult s r) = transcripts s @ [seg]))
   \<and> prefix (transcripts s) (transcripts (processTranscriptEvent s e))
   \<and> prefix (transcripts s) (transcripts (handleTranscriptionEvents s es))
   \<and> transcripts (saveToS3 s ts pf) = transcripts s
   \<and> prefix (transcripts s) (transcripts (handleConnection s startFails es sel ts pf))"
  by (simp add: processResult_transcripts processTranscriptEvent_def
      foldl_processResult_prefix handleTranscriptionEvents_prefix saveToS3_transcripts
      handleConnection_prefix)

lemma lastAcceptedInv_processResult:
  "lastAcceptedInv s \<Longrightarrow> lastAcceptedInv (processResult s r)"
  using processResult_cases [of s r] by (auto simp: lastAcceptedInv_def)

lemma lastAcceptedInv_foldl:
  "lastAcceptedInv s \<Longrightarrow> lastAcceptedInv (foldl processResult s rs)"
  by (induction rs arbitrary: s) (simp_all add: lastAcceptedInv_processResult)

lemma lastAcceptedInv_handleEvent:
  "lastAcceptedInv s \<Longrightarrow> lastAcceptedInv (handleEvent s e)"
  by (cases "(s, e)" rule: handleEvent.cases)
     (simp_all add: processTranscriptEvent_def lastAcceptedInv_foldl)

lemma lastAcceptedInv_events:
  "lastAcceptedInv s \<Longrightarrow> lastAcceptedInv (handleTranscriptionEvents s es)"
  unfolding handleTranscriptionEvents_def
  by (induction es arbitrary: s) (simp_all add: lastAcceptedInv_handleEvent)

text \<open>
  C10. The last transcript is empty exactly when there is no segment, and it is the
  last segment when there is one: this holds for the new session, is preserved by every
  result and every event, and so holds after every stream of events.
\<close>

theorem lastAccepted_invariant:
  "lastAcceptedInv (newSession cfg)
   \<and> (lastAcceptedInv s \<longrightarrow> lastAcceptedInv (processResult s r))
   \<and> (lastAcceptedInv s \<longrightarrow> lastAcceptedInv (processTranscriptEvent s e))
   \<and> lastAcceptedInv (handleTranscriptionEvents (newSession cfg) es)"
proof -
  have init: "lastAcceptedInv (newSession cfg)"
    by (simp add: lastAcceptedInv_def newSession_def)
  then show ?thesis
    by (simp add: lastAcceptedInv_processResult lastAcceptedInv_events
        processTranscriptEvent_def lastAcceptedInv_foldl)
qed

text \<open>The invariant of C10 at a session with two segments.\<close>

theorem lastAccepted_invariant_witness:
  "transcripts (handleTranscriptionEvents (newSession exampleConfig)
      [TranscriptEvent (Some \<lparr>Results = [finalResult ''A'', finalResult ''A B'']\<rparr>)])
     = [''A'', ''B'']
   \<and> lastTranscript (handleTranscriptionEvents (newSession exampleConfig)
      [TranscriptEvent (Some \<lparr>Results = [finalResult ''A'', finalResult ''A B'']\<rparr>)])
     = last (transcripts (handleTranscriptionEvents (newSession exampleConfig)
      [TranscriptEvent (Some \<lparr>Results = [finalResult ''A'', finalResult ''A B'']\<rparr>)]))"
proof -
  let ?s = "handleTranscriptionEvents (newSession exampleConfig)
      [TranscriptEvent (Some \<lparr>Results = [finalResult ''A'', finalResult ''A B'']\<rparr>)]"
  have t: "transcripts ?s = [''A'', ''B'']" by code_simp
  have "lastAcceptedInv ?s"
    using lastAccepted_invariant [of exampleConfig] by simp
  with t show ?thesis by (simp add: lastAcceptedInv_def)
qed

section \<open>The session's outputs\<close>

lemma Join_empty_iff:
  "list_all (\<lambda>seg. seg \<noteq> []) ts \<Longrightarrow> (Join ts sep = []) = (ts = [])"
  by (induction ts sep rule: Join.induct) simp_all

lemma nonempty_processResult:
  "list_all (\<lambda>seg. seg \<noteq> []) (transcripts s) \<Longrightarrow>
   list_all (\<lambda>seg. seg \<noteq> []) (transcripts (processResult s r))"
  using processResult_cases [of s r] by auto

lemma nonempty_foldl:
  "list_all (\<lambda>seg. seg \<noteq> []) (transcripts s) \<Longrightarrow>
   list_all (\<lambda>seg. seg \<noteq> []) (transcripts (foldl processResult s rs))"
  by (induction rs arbitrary: s) (simp_all add: nonempty_processResult)

lemma nonempty_handleEvent:
  "list_all (\<lambda>seg. seg \<noteq> []) (transcripts s) \<Longrightarrow>
   list_all (\<lambda>seg. seg \<noteq> []) (transcripts (handleEvent s e))"
  by (cases "(s, e)" rule: handleEvent.cases)
     (simp_all add: processTranscriptEvent_def nonempty_foldl)

lemma nonempty_events:
  "list_all (\<lambda>seg. seg \<noteq> []) (transcripts s) \<Longrightarrow>
   list_all (\<lambda>seg. seg \<noteq> []) (transcripts (handleTranscriptionEvents s es))"
  unfolding handleTranscriptionEvents_def
  by (induction es arbitrary: s) (simp_all add: nonempty_handleEvent)

lemma sameOutside_refl: "sameOutside s s"
  by (simp add: sameOutside_def)

lemma sameOutside_trans: "sameOutside s s' \<Longrightarrow> sameOutside s' s'' \<Longrightarrow> sameOutside s s''"
  by (simp add: sameOutside_def)

lemma sameOutside_processResult: "sameOutside s (processResult s r)"
  using processResult_cases [of s r] by (auto simp: sameOutside_def messagesOfType_def)

lemma sameOutside_foldl: "sameOutside s (foldl processResult s rs)"
proof (induction rs arbitrary: s)
  case Nil
  show ?case by (simp add: sameOutside_refl)
next
  case (Cons r rs)
  from sameOutside_processResult Cons.IH show ?case
    by (auto intro: sameOutside_trans)
qed

lemma sameOutside_handleEvent: "sameOutside s (handleEvent s e)"
  by (cases "(s, e)" rule: handleEvent.cases)
     (simp_all add: processTranscriptEvent_def sameOutside_foldl sameOutside_refl)

lemma sameOutside_events: "sameOutside s (handleTranscriptionEvents s es)"
  unfolding handleTranscriptionEvents_def
proof (induction es arbitrary: s)
  case Nil
  show ?case by (simp add: sameOutside_refl)
next
  case (Cons e es)
  from sameOutside_handleEvent Cons.IH show ?case
    by (auto intro: sameOutside_trans)
qed

lemma newSession_nonempty: "list_all (\<lambda>seg. seg \<noteq> []) (transcripts (newSession cfg))"
  by (simp add: newSession_def)

lemma saveToS3_eq:
  "saveToS3 s ts pf =
     (if Join (transcripts s) '' '' = [] then s
      else s\<lparr>stored := stored s @ [(putRequest s ts, \<not> pf)],
             sent := sent s @
               [if pf then \<lparr>Type = ''error'', Text = ''Failed to save transcription'',
                              Key = [], Action = []\<rparr>
                else \<lparr>Type = ''saved'', Text = [], Key = objectKey s ts, Action = []\<rparr>]\<rparr>)"
  by (simp add: saveToS3_def Let_def sendError_def sendMessage_def putRequest_def objectKey_def)

lemma handleConnection_started:
  "handleConnection s False es sel ts pf =
     (let s3 = (sendAudioToTranscribe (handleTranscriptionEvents s es) sel)\<lparr>cancelled := True\<rparr>
      in if transcripts s3 = [] then s3 else saveToS3 s3 ts pf)"
  by (simp add: handleConnection_def Let_def)


lemma session_before_save:
  fixes cfg es sel
  defines "s1 \<equiv> handleTranscriptionEvents (newSession cfg) es"
  defines "s3 \<equiv> (sendAudioToTranscribe s1 sel)\<lparr>cancelled := True\<rparr>"
  shows "config s3 = cfg" and "transcripts s3 = transcripts s1" and "stored s3 = []"
    and "messagesOfType ''saved'' s3 = []" and "messagesOfType ''error'' s3 = []"
    and "(Join (transcripts s1) '' '' = []) = (transcripts s1 = [])"
    and "putRequest s3 ts = putRequest s1 ts" and "objectKey s3 ts = objectKey s1 ts"
proof -
  have so: "sameOutside (newSession cfg) s1"
    unfolding s1_def by (rule sameOutside_events)
  have au: "config s3 = config s1" "transcripts s3 = transcripts s1" "stored s3 = stored s1"
    "sent s3 = sent s1"
    unfolding s3_def by (simp_all add: sameOutside_sendAudio)
  from so have c1: "config s1 = cfg" "stored s1 = []" "messagesOfType ''saved'' s1 = []"
    "messagesOfType ''error'' s1 = []"
    by (simp_all add: sameOutside_def newSession_def messagesOfType_def)
  show "config s3 = cfg" using au c1 by simp
  show "transcripts s3 = transcripts s1" by (rule au)
  show "stored s3 = []" using au c1 by simp
  show "messagesOfType ''saved'' s3 = []" using au c1 by (simp add: messagesOfType_def)
  show "messagesOfType ''error'' s3 = []" using au c1 by (simp add: messagesOfType_def)
  have "list_all (\<lambda>seg. seg \<noteq> []) (transcripts s1)"
    unfolding s1_def by (rule nonempty_events) (rule newSession_nonempty)
  then show "(Join (transcripts s1) '' '' = []) = (transcripts s1 = [])"
    by (rule Join_empty_iff)
  show "objectKey s3 ts = objectKey s1 ts" using au by (simp add: objectKey_def)
  then show "putRequest s3 ts = putRequest s1 ts" using au by (simp add: putRequest_def)
qed

lemma session_outputs:
  fixes cfg es sel ts pf
  defines "s1 \<equiv> handleTranscriptionEvents (newSession cfg) es"
  defines "r \<equiv> handleConnection (newSession cfg) False es sel ts pf"
  shows "stored r = (if transcripts s1 = [] then [] else [(putRequest s1 ts, \<not> pf)])"
    and "messagesOfType ''saved'' r =
          (if transcripts s1 \<noteq> [] \<and> \<not> pf
           then [\<lparr>Type = ''saved'', Text = [], Key = objectKey s1 ts, Action = []\<rparr>] else [])"
    and "messagesOfType ''error'' r =
          (if transcripts s1 \<noteq> [] \<and> pf
           then [\<lparr>Type = ''error'', Text = ''Failed to save transcription'', Key = [],
                  Action = []\<rparr>] else [])"
proof -
  define s3 where "s3 = (sendAudioToTranscribe s1 sel)\<lparr>cancelled := True\<rparr>"
  have b: "config s3 = cfg" "transcripts s3 = transcripts s1" "stored s3 = []"
    "messagesOfType ''saved'' s3 = []" "messagesOfType ''error'' s3 = []"
    "(Join (transcripts s1) '' '' = []) = (transcripts s1 = [])"
    "putRequest s3 ts = putRequest s1 ts" "objectKey s3 ts = objectKey s1 ts"
    unfolding s3_def s1_def by (rule session_before_save)+
  have r: "r = (if transcripts s1 = [] then s3 else saveToS3 s3 ts pf)"
    unfolding r_def handleConnection_started s3_def s1_def Let_def
    by (simp add: sameOutside_sendAudio)
  have sv: "transcripts s1 \<noteq> [] \<Longrightarrow> saveToS3 s3 ts pf =
      s3\<lparr>stored := stored s3 @ [(putRequest s1 ts, \<not> pf)],
         sent := sent s3 @
               [if pf then \<lparr>Type = ''error'', Text = ''Failed to save transcription'',
                              Key = [], Action = []\<rparr>
                else \<lparr>Type = ''saved'', Text = [], Key = objectKey s1 ts, Action = []\<rparr>]\<rparr>"
    using b(2,6,7,8) by (simp add: saveToS3_eq)
  show "stored r = (if transcripts s1 = [] then [] else [(putRequest s1 ts, \<not> pf)])"
    using r sv b(3) by simp
  show "messagesOfType ''saved'' r =
          (if transcripts s1 \<noteq> [] \<and> \<not> pf
           then [\<lparr>Type = ''saved'', Text = [], Key = objectKey s1 ts, Action = []\<rparr>] else [])"
    using r sv b(4) by (auto simp: messagesOfType_def)
  show "messagesOfType ''error'' r =
          (if transcripts s1 \<noteq> [] \<and> pf
           then [\<lparr>Type = ''error'', Text = ''Failed to save transcription'', Key = [],
                  Action = []\<rparr>] else [])"
    using r sv b(5) by (auto simp: messagesOfType_def)
qed


section \<open>The audio path: queue and end of stream\<close>

lemma sendAudio_streams_ok:
  "sendAudioToTranscribe s (map (\<lambda>a. AudioReceived a False) frames @ rest) =
   sendAudioToTranscribe (s\<lparr>streamed := streamed s @ frames\<rparr>) rest"
  by (induction frames arbitrary: s) simp_all

lemma audioSends_shapes:
  "audioSends s (map (\<lambda>a. AudioReceived a False) frames @ AudioClosed # rest) = frames @ [[]]"
  "audioSends s (map (\<lambda>a. AudioReceived a False) frames @ AudioReceived audio True # rest)
     = frames @ [audio]"
  "audioSends s (map (\<lambda>a. AudioReceived a False) frames @ DoneClosed # rest) = frames"
  "audioSends s (map (\<lambda>a. AudioReceived a False) frames @ CtxDone # rest) = frames"
  "audioSends s (map (\<lambda>a. AudioReceived a False) frames) = frames"
  using sendAudio_streams_ok [of s frames "[]"]
  by (simp_all add: audioSends_def sendAudio_streams_ok)

text \<open>Every run of the loop has one of five forms: frames sent without error, then
  the closed channel, a failed send, \<open>done\<close>, the cancelled context, or nothing
  more yet.\<close>

lemma select_shapes:
  "(\<exists>frames rest. sel = map (\<lambda>a. AudioReceived a False) frames @ AudioClosed # rest)
   \<or> (\<exists>frames audio rest.
         sel = map (\<lambda>a. AudioReceived a False) frames @ AudioReceived audio True # rest)
   \<or> (\<exists>frames rest. sel = map (\<lambda>a. AudioReceived a False) frames @ DoneClosed # rest)
   \<or> (\<exists>frames rest. sel = map (\<lambda>a. AudioReceived a False) frames @ CtxDone # rest)
   \<or> (\<exists>frames. sel = map (\<lambda>a. AudioReceived a False) frames)"
proof (induction sel)
  case Nil
  have "[] = map (\<lambda>a. AudioReceived a False) []" by simp
  then show ?case by blast
next
  case (Cons c sel)
  show ?case
  proof (cases c)
    case (AudioReceived a fails)
    show ?thesis
    proof (cases fails)
      case True
      with AudioReceived have "c # sel = map (\<lambda>a. AudioReceived a False) [] @
          AudioReceived a True # sel" by simp
      then show ?thesis by blast
    next
      case False
      with AudioReceived have c: "c = AudioReceived a False" by simp
      from Cons.IH show ?thesis
      proof (elim disjE exE)
        fix frames rest
        assume "sel = map (\<lambda>a. AudioReceived a False) frames @ AudioClosed # rest"
        with c have "c # sel = map (\<lambda>a. AudioReceived a False) (a # frames) @
            AudioClosed # rest" by simp
        then show ?thesis by blast
      next
        fix frames audio rest
        assume "sel = map (\<lambda>a. AudioReceived a False) frames @ AudioReceived audio True # rest"
        with c have "c # sel = map (\<lambda>a. AudioReceived a False) (a # frames) @
            AudioReceived audio True # rest" by simp
        then show ?thesis by blast
      next
        fix frames rest
        assume "sel = map (\<lambda>a. AudioReceived a False) frames @ DoneClosed # rest"
        with c have "c # sel = map (\<lambda>a. AudioReceived a False) (a # frames) @
            DoneClosed # rest" by simp
        then show ?thesis by blast
      next
        fix frames rest
        assume "sel = map (\<lambda>a. AudioReceived a False) frames @ CtxDone # rest"
        with c have "c # sel = map (\<lambda>a. AudioReceived a False) (a # frames) @
            CtxDone # rest" by simp
        then show ?thesis by blast
      next
        fix frames
        assume "sel = map (\<lambda>a. AudioReceived a False) frames"
        with c have "c # sel = map (\<lambda>a. AudioReceived a False) (a # frames)" by simp
        then have "\<exists>frames. c # sel = map (\<lambda>a. AudioReceived a False) frames"
          by (rule exI [of _ "a # frames"])
        then show ?thesis by simp
      qed
    qed
  next
    case AudioClosed
    then have "c # sel = map (\<lambda>a. AudioReceived a False) [] @ AudioClosed # sel" by simp
    then show ?thesis by blast
  next
    case DoneClosed
    then have "c # sel = map (\<lambda>a. AudioReceived a False) [] @ DoneClosed # sel" by simp
    then show ?thesis by blast
  next
    case CtxDone
    then have "c # sel = map (\<lambda>a. AudioReceived a False) [] @ CtxDone # sel" by simp
    then show ?thesis by blast
  qed
qed

lemma count_list_absent: "x \<notin> set xs \<Longrightarrow> count_list xs x = 0"
  by (induction xs) auto

text \<open>
  C5, amended. When the frames the loop receives are non-empty, the loop sends the
  empty end-of-stream payload only when it finds the channel closed, then exactly once
  and as its last send. When the loop ends before that, by a failed send, by
  \<open>done\<close> or by the cancelled context, or is still waiting, it has sent the frames
  received so far and no empty payload, and it sends nothing afterwards.
\<close>

theorem end_of_stream_marker:
  assumes "[] \<notin> set frames" and "audio \<noteq> []"
  shows
   "audioSends s (map (\<lambda>a. AudioReceived a False) frames @ AudioClosed # rest) = frames @ [[]]
    \<and> count_list
         (audioSends s (map (\<lambda>a. AudioReceived a False) frames @ AudioClosed # rest)) [] = 1
    \<and> last (audioSends s (map (\<lambda>a. AudioReceived a False) frames @ AudioClosed # rest)) = []
    \<and> audioSends s (map (\<lambda>a. AudioReceived a False) frames @ AudioReceived audio True # rest)
         = frames @ [audio]
    \<and> count_list (audioSends s
         (map (\<lambda>a. AudioReceived a False) frames @ AudioReceived audio True # rest)) [] = 0
    \<and> audioSends s (map (\<lambda>a. AudioReceived a False) frames @ DoneClosed # rest) = frames
    \<and> count_list
         (audioSends s (map (\<lambda>a. AudioReceived a False) frames @ DoneClosed # rest)) [] = 0
    \<and> audioSends s (map (\<lambda>a. AudioReceived a False) frames @ CtxDone # rest) = frames
    \<and> count_list
         (audioSends s (map (\<lambda>a. AudioReceived a False) frames @ CtxDone # rest)) [] = 0
    \<and> audioSends s (map (\<lambda>a. AudioReceived a False) frames) = frames
    \<and> count_list (audioSends s (map (\<lambda>a. AudioReceived a False) frames)) [] = 0"
  using assms by (simp add: audioSends_shapes count_list_absent)

text \<open>The hypotheses of the amended C5 at two frames followed by the closed channel,
  and at a frame whose send fails.\<close>

theorem end_of_stream_marker_witness:
  "audioSends (newSession exampleConfig)
      [AudioReceived ''f1'' False, AudioReceived ''f2'' False, AudioClosed, AudioClosed]
     = [''f1'', ''f2'', []]
   \<and> count_list (audioSends (newSession exampleConfig)
      [AudioReceived ''f1'' False, AudioReceived ''f2'' False, AudioClosed, AudioClosed]) [] = 1
   \<and> count_list (audioSends (newSession exampleConfig)
      [AudioReceived ''f1'' False, AudioReceived ''f2'' False, AudioReceived ''f3'' True,
       AudioClosed]) [] = 0"
proof -
  have h1: "[] \<notin> set [''f1'', ''f2'']" by simp
  have h2: "''f3'' \<noteq> []" by simp
  from end_of_stream_marker [OF h1 h2, where s = "newSession exampleConfig"
      and rest = "[AudioClosed]"]
  show ?thesis by simp
qed

text \<open>
  C5 as stated fails. \<open>handleConnection\<close> closes the channel in every session
  that started (line 239). In the first session the only send failed, so the loop had
  returned (line 372) before the channel was closed; in the second the \<open>select\<close>
  took the cancelled context (line 377, cancelled on line 240 right after the close).
  Neither session sent the end-of-stream payload. In the third session the client's
  first binary message has no bytes: it is forwarded as it is (lines 229 and 365 to
  369), so the empty payload is sent twice, with a frame in between.
\<close>

theorem end_of_stream_counterexample:
  "streamed (handleConnection (newSession exampleConfig) False []
       [AudioReceived ''frame'' True] ''2026-11-03_10-00-00'' False) = [''frame'']
   \<and> streamed (handleConnection (newSession exampleConfig) False []
       [CtxDone] ''2026-11-03_10-00-00'' False) = []
   \<and> streamed (handleConnection (newSession exampleConfig) False []
       [AudioReceived [] False, AudioReceived ''f2'' False, AudioClosed]
       ''2026-11-03_10-00-00'' False) = [[], ''f2'', []]"
  by code_simp

text \<open>
  C6. The channel holds at most 100 frames. A binary message never ends or blocks the
  reading loop. When the channel is full the frame is dropped and the channel is
  unchanged. When it has room the frame is enqueued: the session's context is not
  cancelled while the reading loop runs (\<open>s.cancel()\<close> is called on line 240, after
  the loop), whatever the two goroutines have done so far.
\<close>

theorem audio_queue_push:
  "audioChanCap = 100
   \<and> readMessage s q (BinaryMessage f) pick = (pushAudio s q f pick, False)
   \<and> (length q \<ge> audioChanCap \<longrightarrow> pushAudio s q f pick = q)
   \<and> (length q < audioChanCap \<longrightarrow>
        pushAudio (sendAudioToTranscribe (handleTranscriptionEvents (newSession cfg) es) sel)
          q f pick = q @ [f])"
proof -
  have "sameOutside (newSession cfg) (handleTranscriptionEvents (newSession cfg) es)"
    by (rule sameOutside_events)
  then have "\<not> cancelled (sendAudioToTranscribe
      (handleTranscriptionEvents (newSession cfg) es) sel)"
    by (simp add: sameOutside_sendAudio sameOutside_def newSession_def)
  then show ?thesis
    by (simp add: pushAudio_def audioChanCap_def Let_def readMessage_def)
qed

text \<open>
  The hypotheses of C6 at a full channel and at a channel with room.
\<close>

theorem audio_queue_push_witness:
  "pushAudio (newSession exampleConfig) (replicate 100 ''frame'') ''late'' True
     = replicate 100 ''frame''
   \<and> pushAudio (sendAudioToTranscribe (handleTranscriptionEvents (newSession exampleConfig) [])
        []) [''first''] ''second'' False = [''first'', ''second'']"
proof -
  have full: "length (replicate 100 ''frame'') \<ge> audioChanCap"
    by (simp add: audioChanCap_def)
  have room: "length [''first''] < audioChanCap"
    by (simp add: audioChanCap_def)
  from audio_queue_push [where q = "replicate 100 ''frame''" and s = "newSession exampleConfig"
      and f = "''late''" and pick = True and cfg = exampleConfig and es = "[]" and sel = "[]"]
    full
  have a: "pushAudio (newSession exampleConfig) (replicate 100 ''frame'') ''late'' True
     = replicate 100 ''frame''"
    by blast
  from audio_queue_push [where q = "[''first'']" and s = "newSession exampleConfig"
      and f = "''second''" and pick = False and cfg = exampleConfig and es = "[]" and sel = "[]"]
    room
  have b: "pushAudio (sendAudioToTranscribe
        (handleTranscriptionEvents (newSession exampleConfig) []) [])
        [''first''] ''second'' False = [''first''] @ [''second'']"
    by blast
  from a b show ?thesis by simp
qed

section \<open>Errors and the archiver\<close>

lemma handleConnection_start_failed:
  "handleConnection s True es sel ts pf = sendError s ''Failed to start transcription''"
  by (simp add: handleConnection_def)

text \<open>
  C4. The \<open>error\<close> messages of a whole session: one when the stream fails to
  start, one when the storage write fails, and none otherwise, whatever happens in
  \<open>sendAudioToTranscribe\<close>. In the session of the second part the send to the
  recognition stream fails (lines 370 to 373): the client gets no \<open>error\<close> message.
\<close>

theorem error_messages_of_session:
  "messagesOfType ''error'' (handleConnection (newSession cfg) startFails es sel ts pf) =
     (if startFails
      then [\<lparr>Type = ''error'', Text = ''Failed to start transcription'', Key = [], Action = []\<rparr>]
      else if transcripts (handleTranscriptionEvents (newSession cfg) es) \<noteq> [] \<and> pf
      then [\<lparr>Type = ''error'', Text = ''Failed to save transcription'', Key = [], Action = []\<rparr>]
      else [])
   \<and> messagesOfType ''error'' (handleConnection (newSession exampleConfig) False []
        [AudioReceived ''frame'' True] ''2026-11-03_10-00-00'' False) = []"
proof -
  have started: "messagesOfType ''error'' (handleConnection (newSession c) False e sl t p) =
     (if transcripts (handleTranscriptionEvents (newSession c) e) \<noteq> [] \<and> p
      then [\<lparr>Type = ''error'', Text = ''Failed to save transcription'', Key = [], Action = []\<rparr>]
      else [])" for c e sl t p
    by (rule session_outputs)
  have failed: "messagesOfType ''error'' (handleConnection (newSession cfg) True es sel ts pf) =
      [\<lparr>Type = ''error'', Text = ''Failed to start transcription'', Key = [], Action = []\<rparr>]"
    by (simp add: handleConnection_start_failed sendError_def sendMessage_def
        messagesOfType_def newSession_def)
  have "transcripts (handleTranscriptionEvents (newSession exampleConfig) []) = []"
    by (simp add: handleTranscriptionEvents_def newSession_def)
  then have "messagesOfType ''error'' (handleConnection (newSession exampleConfig) False []
        [AudioReceived ''frame'' True] ''2026-11-03_10-00-00'' False) = []"
    by (simp add: started)
  moreover have "messagesOfType ''error''
      (handleConnection (newSession cfg) startFails es sel ts pf) =
     (if startFails
      then [\<lparr>Type = ''error'', Text = ''Failed to start transcription'', Key = [], Action = []\<rparr>]
      else if transcripts (handleTranscriptionEvents (newSession cfg) es) \<noteq> [] \<and> pf
      then [\<lparr>Type = ''error'', Text = ''Failed to save transcription'', Key = [], Action = []\<rparr>]
      else [])"
    using started [of cfg es sel ts pf] failed by (cases startFails) simp_all
  ultimately show ?thesis by simp
qed

text \<open>
  C7. A session whose stream failed to start writes nothing to storage and sends no
  \<open>saved\<close> message. For a session whose stream started: after any events, there is no segment
  exactly when the joined text is empty; with no segment nothing is written to storage
  and no \<open>saved\<close> message is sent; otherwise there is exactly one storage write, of
  the joined text, and a \<open>saved\<close> message is sent only when that write succeeded,
  with the key of the write. \<open>saveToS3\<close> itself does nothing on an empty joined
  text.
\<close>

theorem archiver_noop_on_empty:
  fixes cfg es sel ts pf
  defines "s1 \<equiv> handleTranscriptionEvents (newSession cfg) es"
  defines "r \<equiv> handleConnection (newSession cfg) False es sel ts pf"
  shows "(transcripts s1 = []) = (Join (transcripts s1) '' '' = [])
   \<and> (transcripts s1 = [] \<longrightarrow> stored r = [] \<and> messagesOfType ''saved'' r = [])
   \<and> stored r = (if transcripts s1 = [] then [] else [(putRequest s1 ts, \<not> pf)])
   \<and> messagesOfType ''saved'' r =
        (if transcripts s1 \<noteq> [] \<and> \<not> pf
         then [\<lparr>Type = ''saved'', Text = [], Key = ObjectKey (putRequest s1 ts), Action = []\<rparr>]
         else [])
   \<and> (Join (transcripts s) '' '' = [] \<longrightarrow> saveToS3 s ts' pf' = s)
   \<and> stored (handleConnection (newSession cfg) True es sel ts pf) = []
   \<and> messagesOfType ''saved'' (handleConnection (newSession cfg) True es sel ts pf) = []"
proof -
  have "stored (handleConnection (newSession cfg) True es sel ts pf) = []"
    and "messagesOfType ''saved'' (handleConnection (newSession cfg) True es sel ts pf) = []"
    by (simp_all add: handleConnection_start_failed sendError_def sendMessage_def
        messagesOfType_def newSession_def)
  moreover
  have "(Join (transcripts s1) '' '' = []) = (transcripts s1 = [])"
    unfolding s1_def by (rule session_before_save)
  moreover have "stored r = (if transcripts s1 = [] then [] else [(putRequest s1 ts, \<not> pf)])"
    unfolding r_def s1_def by (rule session_outputs)
  moreover have "messagesOfType ''saved'' r =
        (if transcripts s1 \<noteq> [] \<and> \<not> pf
         then [\<lparr>Type = ''saved'', Text = [], Key = ObjectKey (putRequest s1 ts), Action = []\<rparr>]
         else [])"
    unfolding r_def s1_def by (simp add: session_outputs putRequest_def)
  moreover have "Join (transcripts s) '' '' = [] \<longrightarrow> saveToS3 s ts' pf' = s"
    by (simp add: saveToS3_eq)
  ultimately show ?thesis by auto
qed


text \<open>
  The hypotheses of C7 at a session that received no event.
\<close>

theorem archiver_noop_on_empty_witness:
  "stored (handleConnection (newSession exampleConfig) False [] [AudioClosed]
      ''2026-11-03_10-00-00'' False) = []
   \<and> messagesOfType ''saved'' (handleConnection (newSession exampleConfig) False []
      [AudioClosed] ''2026-11-03_10-00-00'' False) = []
   \<and> saveToS3 (newSession exampleConfig) ''2026-11-03_10-00-00'' False
      = newSession exampleConfig"
proof -
  have h1: "transcripts (handleTranscriptionEvents (newSession exampleConfig) []) = []"
    by (simp add: handleTranscriptionEvents_def newSession_def)
  have h2: "Join (transcripts (newSession exampleConfig)) '' '' = []"
    by (simp add: newSession_def)
  from archiver_noop_on_empty [where cfg = exampleConfig and es = "[]" and sel = "[AudioClosed]"
      and ts = "''2026-11-03_10-00-00''" and pf = False and s = "newSession exampleConfig"
      and ts' = "''2026-11-03_10-00-00''" and pf' = False] h1 h2
  show ?thesis by blast
qed


text \<open>The end-to-end scenario: five frames, two partial results, one final result,
  then the stop command.\<close>

lemma end_to_end_scenario:
  "sent (handleConnection (newSession exampleConfig) False
      [TranscriptEvent (Some \<lparr>Results = [partialResult ''hel'']\<rparr>),
       TranscriptEvent (Some \<lparr>Results = [partialResult ''hello'']\<rparr>),
       TranscriptEvent (Some \<lparr>Results = [finalResult ''hello there'']\<rparr>)]
      [AudioReceived ''f1'' False, AudioReceived ''f2'' False, AudioReceived ''f3'' False,
       AudioReceived ''f4'' False, AudioReceived ''f5'' False, AudioClosed]
      ''2026-11-03_10-00-00'' False) =
     [\<lparr>Type = ''partial'', Text = ''hel'', Key = [], Action = []\<rparr>,
      \<lparr>Type = ''partial'', Text = ''hello'', Key = [], Action = []\<rparr>,
      \<lparr>Type = ''final'', Text = ''hello there'', Key = [], Action = []\<rparr>,
      \<lparr>Type = ''saved'', Text = [],
        Key = ''medical-transcriptions/transcription_2026-11-03_10-00-00.txt'', Action = []\<rparr>]"
  by code_simp

end
